theory Spec2Isabelle
  imports Main
begin

section \<open>The HTTP transport, as \<open>smart_open/http.py\<close> uses it\<close>

text \<open>
  Byte strings are lists of 8-bit characters. Python's \<open>''\<close> and \<open>b''\<close> are both the
  empty list here.
\<close>

type_synonym bytes = string

datatype auth = HTTPKerberosAuth | BasicAuth string string

text \<open>
  A request header value is a plain string, or the value of the f-string
  \<open>f"bytes={start_pos}-"\<close>, kept with its integer unformatted.
\<close>

datatype header_value = HeaderStr string | BytesFrom int

record request =
  req_url :: string
  req_auth :: "auth option"
  req_stream :: bool
  req_headers :: "string \<rightharpoonup> header_value"

text \<open>
  A response of the transport: \<open>ok\<close>, the status that \<open>raise_for_status\<close> reports, the
  response headers, and the body stream \<open>raw\<close> as the list of chunks that the transport has
  not delivered yet. \<open>headers\<close> is the lookup \<open>response.headers.get\<close> at the keys the code
  asks for. Both \<open>iter_content\<close> and \<open>raw.read()\<close> consume this one stream:
  \<open>next\<close> on the chunk iterator takes the first chunk, \<open>raw.read()\<close> takes all of them.
\<close>

record response =
  ok :: bool
  status_code :: int
  headers :: "string \<rightharpoonup> string"
  raw :: "bytes list"

text \<open>\<open>requests.get\<close> with the url, the credentials and the headers of the request.\<close>

type_synonym transport = "request \<Rightarrow> response"

datatype error =
  ValueError | OSError | HTTPError int | TypeError | UnsupportedOperation | UnboundLocalError

section \<open>Module constants\<close>

definition DEFAULT_BUFFER_SIZE :: int where
  "DEFAULT_BUFFER_SIZE = 128 * 1024"

definition START :: int where "START = 0"
definition CURRENT :: int where "CURRENT = 1"
definition END :: int where "END = 2"

definition WHENCE_CHOICES :: "int list" where
  "WHENCE_CHOICES = [START, CURRENT, END]"

definition HEADERS :: "string \<rightharpoonup> header_value" where
  "HEADERS = [''Accept-Encoding'' \<mapsto> HeaderStr ''identity'']"

definition clamp :: "int \<Rightarrow> int \<Rightarrow> int \<Rightarrow> int" where
  "clamp val minval maxval = max (min val maxval) minval"

section \<open>BufferedInputBase\<close>

text \<open>
  The generator made by \<open>response.iter_content(buffer_size)\<close>. It draws from the body
  stream of the response it was made from, so the model keeps its argument only; the
  position in the stream is the \<open>raw\<close> field of the response. Every assignment to
  \<open>self.response\<close> of a new response comes with \<open>self._read_iter = None\<close>, so an iterator
  is never used on another response than its own.
\<close>

datatype chunk_iter = IterContent int

text \<open>The member \<open>self.raw\<close> is always \<open>None\<close> and is left out.\<close>

record buffered_input_base =
  response :: "response option"
  buffer_size :: int
  mode :: string
  read_buffer :: "bytes option"
  read_iter :: "chunk_iter option"
  current_pos :: int

definition make_auth :: "bool \<Rightarrow> string option \<Rightarrow> string option \<Rightarrow> auth option" where
  "make_auth kerberos user password =
     (if kerberos then Some HTTPKerberosAuth
      else (case (user, password) of
              (Some u, Some p) \<Rightarrow> Some (BasicAuth u p)
            | _ \<Rightarrow> None))"

text \<open>
  The constructors and \<open>seek\<close> issue requests; the requests issued so far are threaded
  through as a list, the latest last.
\<close>

definition BufferedInputBase_init ::
  "transport \<Rightarrow> string \<Rightarrow> string \<Rightarrow> int \<Rightarrow> bool \<Rightarrow> string option \<Rightarrow> string option \<Rightarrow>
   request list \<Rightarrow> (error + buffered_input_base) \<times> request list" where
  "BufferedInputBase_init get u m bsize kerberos user password log =
     (let req = \<lparr>req_url = u, req_auth = make_auth kerberos user password,
                 req_stream = True, req_headers = HEADERS\<rparr>;
          resp = get req
      in if \<not> ok resp then (Inl (HTTPError (status_code resp)), log @ [req])
         else (Inr \<lparr>response = Some resp, buffer_size = bsize, mode = m,
                    read_buffer = None, read_iter = None, current_pos = 0\<rparr>,
               log @ [req]))"

definition close :: "'a buffered_input_base_scheme \<Rightarrow> 'a buffered_input_base_scheme" where
  "close self = self\<lparr>response := None\<rparr>"

definition readable :: "'a buffered_input_base_scheme \<Rightarrow> bool" where
  "readable self = True"

definition detach :: "'a buffered_input_base_scheme \<Rightarrow> error + unit" where
  "detach self = Inl UnsupportedOperation"

text \<open>
  The \<open>while\<close> loop of \<open>read\<close>: the buffer, the chunks still to come and the requested
  size; the result is the buffer, the chunks left, and whether \<open>next\<close> raised
  \<open>StopIteration\<close>.
\<close>

fun read_loop :: "bytes \<Rightarrow> bytes list \<Rightarrow> int \<Rightarrow> bytes \<times> bytes list \<times> bool" where
  "read_loop buf [] sz = (if int (length buf) < sz then (buf, [], True) else (buf, [], False))"
| "read_loop buf (c # cs) sz =
     (if int (length buf) < sz then read_loop (buf @ c) cs sz else (buf, c # cs, False))"

text \<open>
  \<open>read\<close> returns what the call returns or raises, with the reader as the call leaves it.
  \<open>len(self._read_buffer)\<close> raises \<open>TypeError\<close> when the buffer is \<open>None\<close>.
\<close>

definition read ::
  "'a buffered_input_base_scheme \<Rightarrow> int \<Rightarrow> (error + bytes) \<times> 'a buffered_input_base_scheme" where
  "read self sz =
     (case response self of
        None \<Rightarrow> (Inr [], self)
      | Some resp \<Rightarrow>
          if sz = 0 then (Inr [], self)
          else if sz < 0 then
            (let retval = concat (raw resp);
                 self1 = self\<lparr>response := Some (resp\<lparr>raw := []\<rparr>)\<rparr>
             in (Inr retval, self1\<lparr>current_pos := current_pos self1 + int (length retval)\<rparr>))
          else
            (let self1 = (if read_iter self = None
                          then self\<lparr>read_iter := Some (IterContent (buffer_size self)),
                                    read_buffer := Some []\<rparr>
                          else self)
             in case read_buffer self1 of
                  None \<Rightarrow> (Inl TypeError, self1)
                | Some buf \<Rightarrow>
                    (case read_loop buf (raw resp) sz of
                       (buf', rest, True) \<Rightarrow>
                         (Inr buf',
                          self1\<lparr>response := Some (resp\<lparr>raw := rest\<rparr>),
                                current_pos := current_pos self1 + int (length buf'),
                                read_buffer := Some []\<rparr>)
                     | (buf', rest, False) \<Rightarrow>
                         (let retval = take (nat sz) buf'
                          in (Inr retval,
                              self1\<lparr>response := Some (resp\<lparr>raw := rest\<rparr>),
                                    read_buffer := Some (drop (nat sz) buf'),
                                    current_pos := current_pos self1 + int (length retval)\<rparr>)))))"

definition read1 ::
  "'a buffered_input_base_scheme \<Rightarrow> int \<Rightarrow> (error + bytes) \<times> 'a buffered_input_base_scheme" where
  "read1 self sz = read self sz"

text \<open>
  \<open>readinto\<close> returns the number of bytes read, the caller's buffer \<open>b\<close> after the slice
  assignment \<open>b[:len(data)] = data\<close>, and the reader.
\<close>

definition readinto ::
  "'a buffered_input_base_scheme \<Rightarrow> bytes \<Rightarrow>
   (error + int) \<times> bytes \<times> 'a buffered_input_base_scheme" where
  "readinto self b =
     (case read self (int (length b)) of
        (Inl e, self') \<Rightarrow> (Inl e, b, self')
      | (Inr data, self') \<Rightarrow>
          if data = [] then (Inr 0, b, self')
          else (Inr (int (length data)), data @ drop (length data) b, self'))"

section \<open>SeekableBufferedInputBase\<close>

record seekable_buffered_input_base = buffered_input_base +
  url :: string
  auth :: "auth option"
  seekable_flag :: bool
  content_length :: int

definition partial_request ::
  "transport \<Rightarrow> string \<Rightarrow> auth option \<Rightarrow> int option \<Rightarrow> request list \<Rightarrow> response \<times> request list" where
  "partial_request get u a start_pos log =
     (let hdrs = (case start_pos of
                    None \<Rightarrow> HEADERS
                  | Some p \<Rightarrow> HEADERS(''range'' \<mapsto> BytesFrom p));
          req = \<lparr>req_url = u, req_auth = a, req_stream = True, req_headers = hdrs\<rparr>
      in (get req, log @ [req]))"

definition lower_char :: "char \<Rightarrow> char" where
  "lower_char c =
     (if 65 \<le> (of_char c :: nat) \<and> (of_char c :: nat) \<le> 90
      then char_of (of_char c + (32 :: nat)) else c)"

definition lower :: "string \<Rightarrow> string" where
  "lower s = map lower_char s"

text \<open>
  The built-in \<open>int\<close> applied to a header string is a parameter \<open>py_int\<close>: \<open>None\<close> where it
  raises \<open>ValueError\<close>. On the default \<open>-1\<close> it returns \<open>-1\<close>.
\<close>

definition SeekableBufferedInputBase_init ::
  "(string \<Rightarrow> int option) \<Rightarrow> transport \<Rightarrow> string \<Rightarrow> string \<Rightarrow> int \<Rightarrow> bool \<Rightarrow>
   string option \<Rightarrow> string option \<Rightarrow> request list \<Rightarrow>
   (error + seekable_buffered_input_base) \<times> request list" where
  "SeekableBufferedInputBase_init py_int get u m bsize kerberos user password log =
     (let a = make_auth kerberos user password;
          (resp, log1) = partial_request get u a None log
      in if \<not> ok resp then (Inl (HTTPError (status_code resp)), log1)
         else
           (case (case headers resp ''Content-Length'' of
                    None \<Rightarrow> Some (- 1)
                  | Some v \<Rightarrow> py_int v) of
              None \<Rightarrow> (Inl ValueError, log1)
            | Some cl \<Rightarrow>
                (let s1 = (if cl < 0 then False else True);
                     s2 = (if lower (case headers resp ''Accept-Ranges'' of
                                       None \<Rightarrow> ''none'' | Some v \<Rightarrow> v) \<noteq> ''bytes''
                           then False else s1)
                 in (Inr \<lparr>response = Some resp, buffer_size = bsize, mode = m,
                           read_buffer = None, read_iter = None, current_pos = 0,
                           url = u, auth = a, seekable_flag = s2, content_length = cl\<rparr>,
                     log1))))"

definition seekable :: "seekable_buffered_input_base \<Rightarrow> bool" where
  "seekable self = seekable_flag self"

definition tell :: "seekable_buffered_input_base \<Rightarrow> int" where
  "tell self = current_pos self"

definition truncate :: "seekable_buffered_input_base \<Rightarrow> error + unit" where
  "truncate self = Inl UnsupportedOperation"

text \<open>
  \<open>seek\<close> returns the position or the error raised, the reader as the call leaves it, and
  the requests issued so far.
\<close>

definition seek ::
  "transport \<Rightarrow> seekable_buffered_input_base \<Rightarrow> int \<Rightarrow> int \<Rightarrow> request list \<Rightarrow>
   (error + int) \<times> seekable_buffered_input_base \<times> request list" where
  "seek get self offset whence log =
     (if whence \<notin> set WHENCE_CHOICES then (Inl ValueError, self, log)
      else if \<not> seekable self then (Inl OSError, self, log)
      else
        (case (if whence = START then Some offset
               else if whence = CURRENT then Some (current_pos self + offset)
               else if whence = 2 then Some (content_length self + offset)
               else None) of
           None \<Rightarrow> (Inl UnboundLocalError, self, log)
         | Some target \<Rightarrow>
             (let new_pos = clamp target 0 (content_length self)
              in if current_pos self \<noteq> new_pos then
                   (let self1 = self\<lparr>current_pos := new_pos, read_buffer := None,
                                      read_iter := None\<rparr>;
                        (resp, log1) = partial_request get (url self1) (auth self1) (Some new_pos) log
                    in if ok resp then (Inr new_pos, self1\<lparr>response := Some resp\<rparr>, log1)
                       else (Inr new_pos, self1\<lparr>response := None\<rparr>, log1))
                 else (Inr new_pos, self, log))))"

section \<open>Reading a stream to its end\<close>

text \<open>
  The bytes a reader still holds, in the order of the resource: the buffered ones, then
  the chunks that its response has not delivered.
\<close>

definition buffered :: "'a buffered_input_base_scheme \<Rightarrow> bytes" where
  "buffered self = (case read_buffer self of None \<Rightarrow> [] | Some b \<Rightarrow> b)"

definition remaining :: "'a buffered_input_base_scheme \<Rightarrow> bytes" where
  "remaining self =
     (case response self of
        None \<Rightarrow> []
      | Some resp \<Rightarrow> buffered self @ concat (raw resp))"

definition unread :: "'a buffered_input_base_scheme \<Rightarrow> nat" where
  "unread self = length (remaining self)"

text \<open>
  The loop of a consumer that calls \<open>read(n)\<close> until it returns an empty result, and
  joins the results. It stops at the first error.
\<close>

function read_until_empty ::
  "'a buffered_input_base_scheme \<Rightarrow> int \<Rightarrow> (error + bytes) \<times> 'a buffered_input_base_scheme" where
  "read_until_empty self n =
     (case read self n of
        (Inl e, self') \<Rightarrow> (Inl e, self')
      | (Inr d, self') \<Rightarrow>
          if d = [] then (Inr [], self')
          else (case read_until_empty self' n of
                  (Inl e, self'') \<Rightarrow> (Inl e, self'')
                | (Inr ds, self'') \<Rightarrow> (Inr (d @ ds), self'')))"
  by pat_completeness auto
termination
proof (relation "measure (\<lambda>(self, n). unread self)")
  show "wf (measure (\<lambda>(self :: 'a buffered_input_base_scheme, n :: int). unread self))"
    by simp
next
  fix self :: "'a buffered_input_base_scheme" and n :: int and x self' d
  assume r: "(x, self') = read self n" and x: "x = Inr d" and d: "d \<noteq> []"
  have loop: "read_loop buf cs n = (b', rest, stop) \<Longrightarrow>
        length b' + length (concat rest) = length buf + length (concat cs) \<and> (stop \<longrightarrow> rest = [])"
    for buf cs b' rest stop
    by (induction cs arbitrary: buf) (auto split: if_splits)
  have "unread self' < unread self"
  proof (cases "response self")
    case None
    with r x d show ?thesis by (simp add: read_def)
  next
    case (Some resp)
    show ?thesis
    proof (cases "n < 0")
      case True
      with r x d Some show ?thesis
        by (auto simp: read_def unread_def remaining_def buffered_def Let_def)
    next
      case False
      with r x d Some have pos: "0 < n" by (cases "n = 0") (auto simp: read_def)
      define self1 where "self1 = (if read_iter self = None
                          then self\<lparr>read_iter := Some (IterContent (buffer_size self)),
                                    read_buffer := Some []\<rparr>
                          else self)"
      have le: "unread self1 \<le> unread self" and resp1: "response self1 = Some resp"
        using Some by (auto simp: self1_def unread_def remaining_def buffered_def)
      obtain buf where buf: "read_buffer self1 = Some buf"
        using r x pos Some unfolding read_def self1_def[symmetric]
        by (cases "read_buffer self1") (auto simp: Let_def)
      obtain b' rest stop where l: "read_loop buf (raw resp) n = (b', rest, stop)"
        by (cases "read_loop buf (raw resp) n") auto
      have inv1: "length b' + length (concat rest) = length buf + length (concat (raw resp))"
        and inv2: "stop \<Longrightarrow> rest = []"
        using loop[OF l] by auto
      have u1: "unread self1 = length buf + length (concat (raw resp))"
        using resp1 buf by (simp add: unread_def remaining_def buffered_def)
      show ?thesis
      proof (cases stop)
        case True
        with r x pos Some buf l have db: "d = b'" and us: "unread self' = 0"
          unfolding read_def self1_def[symmetric] using inv2
          by (auto simp: Let_def unread_def remaining_def buffered_def)
        have "Suc 0 \<le> length b'" using d db by (cases b') auto
        moreover have "length b' = length buf + length (concat (raw resp))"
          using inv1 inv2 True by simp
        ultimately show ?thesis using us u1 le by linarith
      next
        case False
        with r x pos Some buf l have db: "d = take (nat n) b'"
          and us: "unread self' = length (drop (nat n) b') + length (concat rest)"
          unfolding read_def self1_def[symmetric]
          by (auto simp: Let_def unread_def remaining_def buffered_def)
        have "Suc 0 \<le> length d" using d by (cases d) auto
        then have "Suc 0 \<le> min (nat n) (length b')" unfolding db by simp
        moreover have "unread self' = length b' - nat n + length (concat rest)"
          using us by simp
        ultimately show ?thesis using inv1 u1 le by linarith
      qed
    qed
  qed
  then show "((self', n), (self, n)) \<in> measure (\<lambda>(self, n). unread self)"
    by simp
qed

declare read_until_empty.simps [simp del]

section \<open>Reachable states of the seekable reader\<close>

text \<open>
  What every operation keeps true of a reader whose transport sends as many bytes as it
  announced: the cursor and the bytes still held add up to the content length, and the
  buffer exists exactly when the chunk iterator does.
\<close>

definition consistent :: "seekable_buffered_input_base \<Rightarrow> bool" where
  "consistent self \<longleftrightarrow>
     0 \<le> current_pos self \<and>
     (read_iter self = None) = (read_buffer self = None) \<and>
     current_pos self + int (unread self) \<le> content_length self \<and>
     (response self \<noteq> None \<longrightarrow> current_pos self + int (unread self) = content_length self)"

text \<open>
  The transport contract for ranged requests: a successful response to
  \<open>range: bytes=p-\<close> carries the bytes from \<open>p\<close> to the end of the resource.
\<close>

definition serves_ranges :: "transport \<Rightarrow> seekable_buffered_input_base \<Rightarrow> bool" where
  "serves_ranges get self \<longleftrightarrow>
     (\<forall>p. 0 \<le> p \<and> p \<le> content_length self \<longrightarrow>
        (let resp = fst (partial_request get (url self) (auth self) (Some p) [])
         in ok resp \<longrightarrow> int (length (concat (raw resp))) = content_length self - p))"

section \<open>A 26-byte resource delivered in 4-byte chunks\<close>

definition alphabet :: bytes where
  "alphabet = ''abcdefghijklmnopqrstuvwxyz''"

definition alphabet_headers :: "string \<rightharpoonup> string" where
  "alphabet_headers = [''Content-Length'' \<mapsto> ''26'', ''Accept-Ranges'' \<mapsto> ''bytes'']"

definition alphabet_response :: response where
  "alphabet_response =
     \<lparr>ok = True, status_code = 200, headers = alphabet_headers,
      raw = [''abcd'', ''efgh'', ''ijkl'', ''mnop'', ''qrst'', ''uvwx'', ''yz'']\<rparr>"

text \<open>
  A server for the resource: the whole body without a range header, the rest of the body
  from a position inside it, and status 416 for any other range.
\<close>

definition alphabet_server :: transport where
  "alphabet_server req =
     (case req_headers req ''range'' of
        None \<Rightarrow> alphabet_response
      | Some (BytesFrom p) \<Rightarrow>
          if 0 \<le> p \<and> p < 26
          then \<lparr>ok = True, status_code = 206, headers = alphabet_headers,
                raw = [drop (nat p) alphabet]\<rparr>
          else \<lparr>ok = False, status_code = 416, headers = Map.empty, raw = []\<rparr>
      | Some (HeaderStr v) \<Rightarrow>
          \<lparr>ok = False, status_code = 400, headers = Map.empty, raw = []\<rparr>)"

text \<open>The built-in \<open>int\<close> on the one header value the server sends.\<close>

definition int_of_header :: "string \<Rightarrow> int option" where
  "int_of_header s = (if s = ''26'' then Some 26 else None)"

text \<open>The reader that the constructor builds on this server.\<close>

definition alphabet_reader :: seekable_buffered_input_base where
  "alphabet_reader =
     \<lparr>response = Some alphabet_response, buffer_size = DEFAULT_BUFFER_SIZE, mode = ''r'',
      read_buffer = None, read_iter = None, current_pos = 0,
      url = ''http://host/alphabet'', auth = None, seekable_flag = True, content_length = 26\<rparr>"

text \<open>
  A server that ignores the range header: it answers every request with status 200 and the
  whole body.
\<close>

definition whole_body_server :: transport where
  "whole_body_server req = alphabet_response"

text \<open>A server that answers with the range token in capitals.\<close>

definition capitals_server :: transport where
  "capitals_server req =
     alphabet_response\<lparr>headers := [''Content-Length'' \<mapsto> ''26'', ''Accept-Ranges'' \<mapsto> ''BYTES'']\<rparr>"

section \<open>The read loop\<close>

lemma read_loop_spec:
  "\<exists>k\<le>length cs.
     read_loop buf cs n =
       (buf @ concat (take k cs), drop k cs, int (length (buf @ concat (take k cs))) < n)
     \<and> (\<forall>j<k. int (length (buf @ concat (take j cs))) < n)
     \<and> (int (length (buf @ concat (take k cs))) < n \<longrightarrow> k = length cs)"
proof (induction cs arbitrary: buf)
  case Nil
  show ?case by simp
next
  case (Cons c cs)
  show ?case
  proof (cases "int (length buf) < n")
    case False
    then show ?thesis by (intro exI[of _ 0]) simp
  next
    case True
    from Cons.IH[of "buf @ c"] obtain k where k1: "k \<le> length cs"
      and k2: "read_loop (buf @ c) cs n =
       ((buf @ c) @ concat (take k cs), drop k cs, int (length ((buf @ c) @ concat (take k cs))) < n)"
      and k3: "\<forall>j<k. int (length ((buf @ c) @ concat (take j cs))) < n"
      and k4: "int (length ((buf @ c) @ concat (take k cs))) < n \<longrightarrow> k = length cs"
      by blast
    have e: "(buf @ c) @ concat (take j cs) = buf @ concat (take (Suc j) (c # cs))" for j
      by simp
    have a: "Suc k \<le> length (c # cs)" using k1 by simp
    have b: "read_loop buf (c # cs) n =
       (buf @ concat (take (Suc k) (c # cs)), drop (Suc k) (c # cs),
        int (length (buf @ concat (take (Suc k) (c # cs)))) < n)"
      using True k2 unfolding e by simp
    have c: "\<forall>j<Suc k. int (length (buf @ concat (take j (c # cs)))) < n"
    proof (intro allI impI)
      fix j assume j: "j < Suc k"
      show "int (length (buf @ concat (take j (c # cs)))) < n"
      proof (cases j)
        case 0
        then show ?thesis using True by simp
      next
        case (Suc i)
        then have "i < k" using j by simp
        then have "int (length ((buf @ c) @ concat (take i cs))) < n" using k3 by blast
        then show ?thesis unfolding e Suc .
      qed
    qed
    have d: "int (length (buf @ concat (take (Suc k) (c # cs)))) < n \<longrightarrow> Suc k = length (c # cs)"
      using k4 unfolding e by simp
    from a b c d show ?thesis by blast
  qed
qed

lemma read_without_response:
  "response self = None \<Longrightarrow> read self n = (Inr [], self)"
  by (simp add: read_def)

lemma read_positive:
  assumes live: "response self = Some resp" and pos: "0 < n"
    and wf: "(read_iter self = None) = (read_buffer self = None)"
  shows "\<exists>k\<le>length (raw resp).
     (\<forall>j<k. int (length (buffered self @ concat (take j (raw resp)))) < n) \<and>
     (int (length (buffered self @ concat (take k (raw resp)))) < n \<longrightarrow> k = length (raw resp)) \<and>
     read self n =
       (Inr (take (nat n) (buffered self @ concat (take k (raw resp)))),
        self\<lparr>response := Some (resp\<lparr>raw := drop k (raw resp)\<rparr>),
             read_buffer := Some (drop (nat n) (buffered self @ concat (take k (raw resp)))),
             read_iter := (if read_iter self = None then Some (IterContent (buffer_size self))
                           else read_iter self),
             current_pos := current_pos self
               + int (length (take (nat n) (buffered self @ concat (take k (raw resp)))))\<rparr>)"
proof -
  define self1 where "self1 = (if read_iter self = None
                          then self\<lparr>read_iter := Some (IterContent (buffer_size self)),
                                    read_buffer := Some []\<rparr>
                          else self)"
  have b1: "read_buffer self1 = Some (buffered self)"
    using wf by (auto simp: self1_def buffered_def)
  from read_loop_spec[of "raw resp" "buffered self" n] obtain k where k: "k \<le> length (raw resp)"
    and l: "read_loop (buffered self) (raw resp) n =
       (buffered self @ concat (take k (raw resp)), drop k (raw resp),
        int (length (buffered self @ concat (take k (raw resp)))) < n)"
    and m: "\<forall>j<k. int (length (buffered self @ concat (take j (raw resp)))) < n"
    and e: "int (length (buffered self @ concat (take k (raw resp)))) < n \<longrightarrow> k = length (raw resp)"
    by blast
  define acc where "acc = buffered self @ concat (take k (raw resp))"
  have r: "read self n =
       (Inr (take (nat n) acc),
        self\<lparr>response := Some (resp\<lparr>raw := drop k (raw resp)\<rparr>),
             read_buffer := Some (drop (nat n) acc),
             read_iter := (if read_iter self = None then Some (IterContent (buffer_size self))
                           else read_iter self),
             current_pos := current_pos self + int (length (take (nat n) acc))\<rparr>)"
  proof (cases "int (length acc) < n")
    case True
    then have t: "take (nat n) acc = acc" "drop (nat n) acc = []" by auto
    show ?thesis
      unfolding t using live pos b1 l True
      unfolding read_def self1_def[symmetric] acc_def[symmetric]
      by (auto simp: Let_def self1_def)
  next
    case False
    show ?thesis
      using live pos b1 l False
      unfolding read_def self1_def[symmetric] acc_def[symmetric]
      by (auto simp: Let_def self1_def)
  qed
  from k m e r show ?thesis unfolding acc_def by blast
qed

lemma read_positive_remaining:
  assumes live: "response self = Some resp" and pos: "0 < n"
    and wf: "(read_iter self = None) = (read_buffer self = None)"
  shows "\<exists>d self' resp'. read self n = (Inr d, self') \<and> response self' = Some resp' \<and>
     read_iter self' \<noteq> None \<and> read_buffer self' \<noteq> None \<and>
     d @ remaining self' = remaining self \<and>
     current_pos self' = current_pos self + int (length d) \<and>
     (d = [] \<longrightarrow> remaining self = [])"
proof -
  from read_positive[OF live pos wf] obtain k where k: "k \<le> length (raw resp)"
    and e: "int (length (buffered self @ concat (take k (raw resp)))) < n \<longrightarrow> k = length (raw resp)"
    and r: "read self n =
       (Inr (take (nat n) (buffered self @ concat (take k (raw resp)))),
        self\<lparr>response := Some (resp\<lparr>raw := drop k (raw resp)\<rparr>),
             read_buffer := Some (drop (nat n) (buffered self @ concat (take k (raw resp)))),
             read_iter := (if read_iter self = None then Some (IterContent (buffer_size self))
                           else read_iter self),
             current_pos := current_pos self
               + int (length (take (nat n) (buffered self @ concat (take k (raw resp)))))\<rparr>)"
    by blast
  define acc where "acc = buffered self @ concat (take k (raw resp))"
  have split: "remaining self = acc @ concat (drop k (raw resp))"
    using live by (simp add: remaining_def acc_def flip: concat_append)
  have "take (nat n) acc = [] \<longrightarrow> remaining self = []"
  proof
    assume "take (nat n) acc = []"
    with pos have a: "acc = []" by (cases acc) auto
    then have "int (length acc) < n" using pos by simp
    with e have "k = length (raw resp)" unfolding acc_def by blast
    with split a show "remaining self = []" by simp
  qed
  then show ?thesis
    unfolding r[folded acc_def] split
    by (auto simp: remaining_def buffered_def)
qed

lemma read_until_empty_remaining:
  assumes pos: "0 < n"
  shows "response self \<noteq> None \<Longrightarrow> (read_iter self = None) = (read_buffer self = None) \<Longrightarrow>
         fst (read_until_empty self n) = Inr (remaining self)"
proof (induction "length (remaining self)" arbitrary: self rule: less_induct)
  case less
  from less.prems obtain resp where live: "response self = Some resp" by auto
  from read_positive_remaining[OF live pos less.prems(2)]
  obtain d self' resp' where r: "read self n = (Inr d, self')"
    and live': "response self' = Some resp'"
    and wf': "read_iter self' \<noteq> None" "read_buffer self' \<noteq> None"
    and rem: "d @ remaining self' = remaining self"
    and emp: "d = [] \<longrightarrow> remaining self = []"
    by blast
  show ?case
  proof (cases "d = []")
    case True
    with r emp show ?thesis by (subst read_until_empty.simps) simp
  next
    case False
    then have "length (remaining self') < length (remaining self)"
      using rem by (metis length_append length_greater_0_conv less_add_same_cancel2)
    from less.hyps[OF this] live' wf'
    have "fst (read_until_empty self' n) = Inr (remaining self')" by simp
    then obtain s'' where "read_until_empty self' n = (Inr (remaining self'), s'')"
      by (cases "read_until_empty self' n") auto
    with r False rem show ?thesis by (subst read_until_empty.simps) simp
  qed
qed

section \<open>Seeking, and what every operation preserves\<close>

lemma whence_choices: "whence \<in> set WHENCE_CHOICES \<longleftrightarrow> whence = 0 \<or> whence = 1 \<or> whence = 2"
  by (auto simp: WHENCE_CHOICES_def START_def CURRENT_def END_def)

lemma seek_same:
  assumes "whence \<in> set WHENCE_CHOICES" and "seekable self"
    and "target = (if whence = START then offset
                   else if whence = CURRENT then current_pos self + offset
                   else content_length self + offset)"
    and "clamp target 0 (content_length self) = current_pos self"
  shows "seek get self offset whence log = (Inr (current_pos self), self, log)"
  using assms by (auto simp: seek_def whence_choices START_def CURRENT_def Let_def)

lemma seek_moved:
  assumes "whence \<in> set WHENCE_CHOICES" and "seekable self"
    and "target = (if whence = START then offset
                   else if whence = CURRENT then current_pos self + offset
                   else content_length self + offset)"
    and "new_pos = clamp target 0 (content_length self)"
    and "new_pos \<noteq> current_pos self"
    and "req = \<lparr>req_url = url self, req_auth = auth self, req_stream = True,
                req_headers = HEADERS(''range'' \<mapsto> BytesFrom new_pos)\<rparr>"
  shows "seek get self offset whence log =
     (Inr new_pos,
      self\<lparr>current_pos := new_pos, read_buffer := None, read_iter := None,
           response := (if ok (get req) then Some (get req) else None)\<rparr>,
      log @ [req])"
  using assms
  by (auto simp: seek_def whence_choices START_def CURRENT_def Let_def partial_request_def)

lemma clamp_range: "0 \<le> hi \<Longrightarrow> 0 \<le> clamp v 0 hi \<and> clamp v 0 hi \<le> hi"
  by (simp add: clamp_def)

lemma read_at_end:
  assumes c: "consistent self" and e: "current_pos self = content_length self"
  shows "fst (read self n) = Inr []"
proof (cases "response self")
  case None
  then show ?thesis by (simp add: read_without_response)
next
  case (Some resp)
  with c e have rem: "remaining self = []" by (simp add: consistent_def unread_def)
  from c have wf: "(read_iter self = None) = (read_buffer self = None)"
    by (simp add: consistent_def)
  consider "n = 0" | "n < 0" | "0 < n" by linarith
  then show ?thesis
  proof cases
    case 1
    then show ?thesis using Some by (simp add: read_def)
  next
    case 2
    then show ?thesis using Some rem by (simp add: read_def remaining_def Let_def)
  next
    case 3
    from read_positive_remaining[OF Some 3 wf] rem show ?thesis by auto
  qed
qed

lemma init_consistent:
  assumes i: "fst (SeekableBufferedInputBase_init py_int get u m bs k us pw log) = Inr self"
    and body: "\<And>resp. response self = Some resp \<Longrightarrow>
                 int (length (concat (raw resp))) = content_length self"
  shows "consistent self"
proof -
  from i have "response self \<noteq> None \<and> read_buffer self = None \<and> read_iter self = None
      \<and> current_pos self = 0"
    by (auto simp: SeekableBufferedInputBase_init_def Let_def partial_request_def
             split: if_splits option.splits)
  with body show ?thesis
    by (auto simp: consistent_def unread_def remaining_def buffered_def)
qed

lemma init_seekable_length:
  assumes "fst (SeekableBufferedInputBase_init py_int get u m bs k us pw log) = Inr self"
    and "seekable self"
  shows "0 \<le> content_length self"
  using assms
  by (auto simp: SeekableBufferedInputBase_init_def Let_def partial_request_def seekable_def
           split: if_splits option.splits)

lemma close_consistent: "consistent self \<Longrightarrow> consistent (close self)"
  by (auto simp: consistent_def close_def unread_def remaining_def buffered_def
           split: option.splits)

lemma read_consistent:
  assumes c: "consistent self"
  shows "consistent (snd (read self n))"
proof (cases "response self")
  case None
  then show ?thesis using c by (simp add: read_without_response)
next
  case (Some resp)
  from c have wf: "(read_iter self = None) = (read_buffer self = None)"
    by (simp add: consistent_def)
  consider "n = 0" | "n < 0" | "0 < n" by linarith
  then show ?thesis
  proof cases
    case 1
    then show ?thesis using Some c by (simp add: read_def)
  next
    case 2
    then show ?thesis using Some c
      by (auto simp: read_def Let_def consistent_def unread_def remaining_def buffered_def)
  next
    case 3
    from read_positive_remaining[OF Some 3 wf]
    obtain d self' resp' where r: "read self n = (Inr d, self')"
      and live': "response self' = Some resp'"
      and wf': "read_iter self' \<noteq> None" "read_buffer self' \<noteq> None"
      and rem: "d @ remaining self' = remaining self"
      and pos: "current_pos self' = current_pos self + int (length d)"
      by blast
    have cl: "content_length self' = content_length self"
      using r Some 3 wf
      by (auto simp: read_def Let_def split: option.splits prod.splits bool.splits if_splits)
    from rem have "length (remaining self) = length d + length (remaining self')"
      by (metis length_append)
    with c Some live' wf' pos cl have "consistent self'"
      by (auto simp: consistent_def unread_def)
    with r show ?thesis by simp
  qed
qed

lemma seek_consistent:
  assumes c: "consistent self" and s: "serves_ranges get self"
  shows "consistent (fst (snd (seek get self offset whence log)))"
proof (cases "whence \<in> set WHENCE_CHOICES \<and> seekable self")
  case False
  then show ?thesis using c by (auto simp: seek_def)
next
  case True
  define target where "target = (if whence = START then offset
                   else if whence = CURRENT then current_pos self + offset
                   else content_length self + offset)"
  define new_pos where "new_pos = clamp target 0 (content_length self)"
  define req where "req = \<lparr>req_url = url self, req_auth = auth self, req_stream = True,
                req_headers = HEADERS(''range'' \<mapsto> BytesFrom new_pos)\<rparr>"
  from c have cl: "0 \<le> content_length self" by (simp add: consistent_def)
  from clamp_range[OF cl] have np: "0 \<le> new_pos" "new_pos \<le> content_length self"
    by (simp_all add: new_pos_def)
  show ?thesis
  proof (cases "new_pos = current_pos self")
    case True
    with seek_same[OF conjunct1[OF \<open>whence \<in> set WHENCE_CHOICES \<and> seekable self\<close>]
                      conjunct2[OF \<open>whence \<in> set WHENCE_CHOICES \<and> seekable self\<close>] target_def]
    show ?thesis using c by (simp add: new_pos_def)
  next
    case False
    note mv = seek_moved[OF conjunct1[OF \<open>whence \<in> set WHENCE_CHOICES \<and> seekable self\<close>]
                      conjunct2[OF \<open>whence \<in> set WHENCE_CHOICES \<and> seekable self\<close>]
                      target_def new_pos_def False req_def, of get log]
    from s np have "ok (get req) \<longrightarrow> int (length (concat (raw (get req)))) = content_length self - new_pos"
      by (auto simp: serves_ranges_def partial_request_def Let_def req_def)
    with np show ?thesis unfolding mv
      by (auto simp: consistent_def unread_def remaining_def buffered_def)
  qed
qed

section \<open>Facts about the 26-byte resource\<close>

lemma alphabet_read_10:
  "read alphabet_reader 10 =
     (Inr ''abcdefghij'',
      alphabet_reader\<lparr>response := Some (alphabet_response\<lparr>raw := [''mnop'', ''qrst'', ''uvwx'', ''yz'']\<rparr>),
                      read_buffer := Some ''kl'',
                      read_iter := Some (IterContent DEFAULT_BUFFER_SIZE),
                      current_pos := 10\<rparr>)"
  by (simp add: read_def alphabet_reader_def alphabet_response_def Let_def)

lemma alphabet_reader_consistent: "consistent alphabet_reader"
  by (simp add: consistent_def alphabet_reader_def unread_def remaining_def buffered_def
        alphabet_response_def)

lemma alphabet_server_serves: "serves_ranges alphabet_server alphabet_reader"
  by (auto simp: serves_ranges_def alphabet_server_def alphabet_reader_def partial_request_def
        Let_def alphabet_def HEADERS_def)

lemma alphabet_seek_100:
  "seek alphabet_server alphabet_reader 100 START [] =
     (Inr 26,
      alphabet_reader\<lparr>current_pos := 26, read_buffer := None, read_iter := None, response := None\<rparr>,
      [\<lparr>req_url = ''http://host/alphabet'', req_auth = None, req_stream = True,
        req_headers = HEADERS(''range'' \<mapsto> BytesFrom 26)\<rparr>])"
  by (simp add: seek_def WHENCE_CHOICES_def START_def CURRENT_def END_def seekable_def clamp_def
        alphabet_reader_def partial_request_def alphabet_server_def Let_def)

lemma lower_BYTES: "lower ''BYTES'' = ''bytes''"
  by code_simp

lemma lower_bytes: "lower ''bytes'' = ''bytes''"
  by code_simp

lemma alphabet_init:
  "SeekableBufferedInputBase_init int_of_header alphabet_server ''http://host/alphabet'' ''r''
     DEFAULT_BUFFER_SIZE False None None [] =
   (Inr alphabet_reader,
    [\<lparr>req_url = ''http://host/alphabet'', req_auth = None, req_stream = True,
       req_headers = HEADERS\<rparr>])"
  by (simp add: SeekableBufferedInputBase_init_def partial_request_def make_auth_def Let_def
        alphabet_server_def HEADERS_def alphabet_response_def alphabet_headers_def
        int_of_header_def lower_bytes alphabet_reader_def)

section \<open>Properties of read\<close>

text \<open>
  Claim C5. On a live reader, \<open>read(n)\<close> with \<open>n > 0\<close> pulls the first \<open>k\<close> chunks, where
  \<open>k\<close> is the least number that fills the buffer to \<open>n\<close> bytes, or all chunks when there
  are too few bytes. With \<open>n\<close> bytes or more in the buffer it returns the first \<open>n\<close>, keeps
  the rest buffered and advances the cursor by \<open>n\<close>; otherwise it returns the whole buffer,
  fewer than \<open>n\<close> bytes, as a result and not as an error.
\<close>

theorem read_bounded:
  assumes "response self = Some resp" and "0 < n"
    and "(read_iter self = None) = (read_buffer self = None)"
  shows "\<exists>k\<le>length (raw resp). \<exists>acc d self'.
     acc = buffered self @ concat (take k (raw resp)) \<and>
     (\<forall>j<k. int (length (buffered self @ concat (take j (raw resp)))) < n) \<and>
     (n \<le> int (length acc) \<or> k = length (raw resp)) \<and>
     read self n = (Inr d, self') \<and>
     response self' = Some (resp\<lparr>raw := drop k (raw resp)\<rparr>) \<and>
     current_pos self' = current_pos self + int (length d) \<and>
     (n \<le> int (length acc) \<longrightarrow>
        d = take (nat n) acc \<and> int (length d) = n \<and>
        read_buffer self' = Some (drop (nat n) acc)) \<and>
     (int (length acc) < n \<longrightarrow>
        d = acc \<and> read_buffer self' = Some [])"
proof -
  from read_positive[OF assms] obtain k where k: "k \<le> length (raw resp)"
    and m: "\<forall>j<k. int (length (buffered self @ concat (take j (raw resp)))) < n"
    and e: "int (length (buffered self @ concat (take k (raw resp)))) < n \<longrightarrow> k = length (raw resp)"
    and r: "read self n =
       (Inr (take (nat n) (buffered self @ concat (take k (raw resp)))),
        self\<lparr>response := Some (resp\<lparr>raw := drop k (raw resp)\<rparr>),
             read_buffer := Some (drop (nat n) (buffered self @ concat (take k (raw resp)))),
             read_iter := (if read_iter self = None then Some (IterContent (buffer_size self))
                           else read_iter self),
             current_pos := current_pos self
               + int (length (take (nat n) (buffered self @ concat (take k (raw resp)))))\<rparr>)"
    by blast
  define acc where "acc = buffered self @ concat (take k (raw resp))"
  define d where "d = take (nat n) acc"
  define self' where "self' = self\<lparr>response := Some (resp\<lparr>raw := drop k (raw resp)\<rparr>),
             read_buffer := Some (drop (nat n) acc),
             read_iter := (if read_iter self = None then Some (IterContent (buffer_size self))
                           else read_iter self),
             current_pos := current_pos self + int (length d)\<rparr>"
  have stop: "n \<le> int (length acc) \<or> k = length (raw resp)"
    using e unfolding acc_def by linarith
  have rd: "read self n = (Inr d, self')"
    using r unfolding acc_def[symmetric] d_def[symmetric] self'_def[symmetric] .
  have s1: "response self' = Some (resp\<lparr>raw := drop k (raw resp)\<rparr>)"
    by (simp add: self'_def)
  have s2: "current_pos self' = current_pos self + int (length d)"
    by (simp add: self'_def)
  have full: "n \<le> int (length acc) \<longrightarrow>
        d = take (nat n) acc \<and> int (length d) = n \<and>
        read_buffer self' = Some (drop (nat n) acc)"
    using \<open>0 < n\<close> by (auto simp: d_def self'_def)
  have short: "int (length acc) < n \<longrightarrow> d = acc \<and> read_buffer self' = Some []"
    by (auto simp: d_def self'_def)
  from k m stop rd s1 s2 full short show ?thesis
    unfolding acc_def by blast
qed

text \<open>
  The 26-byte resource in 4-byte chunks: \<open>read(10)\<close>, \<open>read(10)\<close>, \<open>read(100)\<close>,
  \<open>read(1)\<close> return the first ten bytes, the next ten, the last six, and nothing.
\<close>

theorem read_bounded_witness:
  "response alphabet_reader = Some alphabet_response \<and> (0 :: int) < 10 \<and>
   ((read_iter alphabet_reader = None) = (read_buffer alphabet_reader = None)) \<and>
   (\<exists>k\<le>length (raw alphabet_response). \<exists>acc d self'.
     acc = buffered alphabet_reader @ concat (take k (raw alphabet_response)) \<and>
     (\<forall>j<k. int (length (buffered alphabet_reader @ concat (take j (raw alphabet_response)))) < 10) \<and>
     (10 \<le> int (length acc) \<or> k = length (raw alphabet_response)) \<and>
     read alphabet_reader 10 = (Inr d, self') \<and>
     response self' = Some (alphabet_response\<lparr>raw := drop k (raw alphabet_response)\<rparr>) \<and>
     current_pos self' = current_pos alphabet_reader + int (length d) \<and>
     (10 \<le> int (length acc) \<longrightarrow>
        d = take (nat 10) acc \<and> int (length d) = 10 \<and>
        read_buffer self' = Some (drop (nat 10) acc)) \<and>
     (int (length acc) < 10 \<longrightarrow>
        d = acc \<and> read_buffer self' = Some [])) \<and>
   (let (r1, s1) = read alphabet_reader 10;
        (r2, s2) = read s1 10;
        (r3, s3) = read s2 100;
        (r4, s4) = read s3 1
    in r1 = Inr ''abcdefghij'' \<and> r2 = Inr ''klmnopqrst'' \<and> r3 = Inr ''uvwxyz'' \<and> r4 = Inr [])"
proof -
  have h1: "response alphabet_reader = Some alphabet_response"
    by (simp add: alphabet_reader_def)
  have h2: "(0 :: int) < 10" by simp
  have h3: "(read_iter alphabet_reader = None) = (read_buffer alphabet_reader = None)"
    by (simp add: alphabet_reader_def)
  have sc: "(let (r1, s1) = read alphabet_reader 10;
        (r2, s2) = read s1 10;
        (r3, s3) = read s2 100;
        (r4, s4) = read s3 1
    in r1 = Inr ''abcdefghij'' \<and> r2 = Inr ''klmnopqrst'' \<and> r3 = Inr ''uvwxyz'' \<and> r4 = Inr [])"
    by (simp add: read_def alphabet_reader_def alphabet_response_def Let_def)
  from h1 h2 h3 sc read_bounded[OF h1 h2 h3] show ?thesis by blast
qed

text \<open>
  Claim C6 as stated includes \<open>n = 0\<close>. There the first call returns the empty result, so
  the loop ends with nothing read while the resource has 26 bytes.
\<close>

theorem read_zero_until_empty_returns_nothing:
  "fst (read_until_empty alphabet_reader 0) = Inr [] \<and>
   concat (raw alphabet_response) = alphabet \<and>
   fst (read_until_empty alphabet_reader 0) \<noteq> Inr alphabet"
proof -
  have "read alphabet_reader 0 = (Inr [], alphabet_reader)"
    by (simp add: read_def alphabet_reader_def)
  then have "fst (read_until_empty alphabet_reader 0) = Inr []"
    by (subst read_until_empty.simps) simp
  then show ?thesis by (simp add: alphabet_response_def alphabet_def)
qed

text \<open>
  Claim C6, amended. For every \<open>n > 0\<close> and every chunking, calling \<open>read(n)\<close> until it
  returns an empty result and joining the results gives the buffered bytes followed by all
  the chunks of the response: the whole resource for a reader that has not read yet.
\<close>

theorem read_until_empty_reconstructs:
  assumes "0 < n" and "response self = Some resp"
    and "(read_iter self = None) = (read_buffer self = None)"
  shows "fst (read_until_empty self n) = Inr (buffered self @ concat (raw resp)) \<and>
         (read_buffer self = None \<longrightarrow> fst (read_until_empty self n) = Inr (concat (raw resp)))"
  using read_until_empty_remaining[of n self] assms
  by (simp add: remaining_def buffered_def)

text \<open>An instance on the 26-byte resource and its server.\<close>

theorem read_until_empty_reconstructs_witness:
  "(0 :: int) < 7 \<and> response alphabet_reader = Some alphabet_response \<and>
   ((read_iter alphabet_reader = None) = (read_buffer alphabet_reader = None)) \<and>
   read_buffer alphabet_reader = None \<and>
   fst (read_until_empty alphabet_reader 7) = Inr ''abcdefghijklmnopqrstuvwxyz''"
proof -
  have h1: "response alphabet_reader = Some alphabet_response"
    by (simp add: alphabet_reader_def)
  have h2: "(0 :: int) < 7" by simp
  have h3: "(read_iter alphabet_reader = None) = (read_buffer alphabet_reader = None)"
    by (simp add: alphabet_reader_def)
  have h4: "read_buffer alphabet_reader = None"
    by (simp add: alphabet_reader_def)
  have c: "concat (raw alphabet_response) = ''abcdefghijklmnopqrstuvwxyz''"
    by (simp add: alphabet_response_def)
  from read_until_empty_reconstructs[OF h2 h1 h3]
  have "read_buffer alphabet_reader = None \<longrightarrow>
        fst (read_until_empty alphabet_reader 7) = Inr (concat (raw alphabet_response))"
    by blast
  with h4 c
  have "fst (read_until_empty alphabet_reader 7) = Inr ''abcdefghijklmnopqrstuvwxyz''"
    by simp
  with h1 h2 h3 h4 show ?thesis by blast
qed

text \<open>
  Claim C1. \<open>read(-1)\<close> is to return all the bytes that remain from the current position,
  the same bytes that repeated bounded reads return from there. On the 26-byte resource in
  4-byte chunks, after \<open>read(10)\<close> the bytes \<open>kl\<close> are buffered and 16 bytes remain;
  \<open>read(-1)\<close> returns only the 14 bytes that the response has not delivered, while reads of
  3 bytes until the empty result return all 16.
\<close>

theorem read_all_skips_buffered_bytes:
  "fst (read alphabet_reader 10) = Inr ''abcdefghij'' \<and>
   remaining (snd (read alphabet_reader 10)) = ''klmnopqrstuvwxyz'' \<and>
   fst (read (snd (read alphabet_reader 10)) (- 1)) = Inr ''mnopqrstuvwxyz'' \<and>
   fst (read_until_empty (snd (read alphabet_reader 10)) 3) = Inr ''klmnopqrstuvwxyz''"
proof -
  let ?s = "snd (read alphabet_reader 10)"
  have a: "fst (read alphabet_reader 10) = Inr ''abcdefghij''"
    by (simp add: alphabet_read_10)
  have b: "remaining ?s = ''klmnopqrstuvwxyz''"
    by (simp add: alphabet_read_10 remaining_def buffered_def alphabet_response_def)
  have c: "fst (read ?s (- 1)) = Inr ''mnopqrstuvwxyz''"
    unfolding alphabet_read_10 snd_conv
    by (simp add: read_def Let_def alphabet_reader_def alphabet_response_def)
  have "fst (read_until_empty ?s 3) = Inr (remaining ?s)"
    by (rule read_until_empty_remaining) (simp_all add: alphabet_read_10)
  with a b c show ?thesis by simp
qed

text \<open>
  Claim C8. A reader without a response returns the empty result from every \<open>read\<close>,
  whatever the size, and stays as it is. \<open>close\<close> leaves the reader without a response, and
  so does a seek whose request got a response that is not ok.
\<close>

theorem read_after_handle_lost:
  "(response self = None \<longrightarrow> read self n = (Inr [], self)) \<and>
   response (close self) = None \<and>
   read (close self) n = (Inr [], close self) \<and>
   (whence \<in> set WHENCE_CHOICES \<and> seekable sk \<and>
    seek get sk offset whence log = (res, sk', log') \<and> log' \<noteq> log \<and> \<not> ok (get (last log'))
      \<longrightarrow> response sk' = None \<and> read sk' n = (Inr [], sk'))"
proof -
  have a: "response self = None \<longrightarrow> read self n = (Inr [], self)"
    by (simp add: read_without_response)
  have b: "response (close self) = None"
    by (simp add: close_def)
  have c: "read (close self) n = (Inr [], close self)"
    using b by (rule read_without_response)
  have d: "whence \<in> set WHENCE_CHOICES \<and> seekable sk \<and>
    seek get sk offset whence log = (res, sk', log') \<and> log' \<noteq> log \<and> \<not> ok (get (last log'))
      \<longrightarrow> response sk' = None \<and> read sk' n = (Inr [], sk')"
  proof
    assume h: "whence \<in> set WHENCE_CHOICES \<and> seekable sk \<and>
      seek get sk offset whence log = (res, sk', log') \<and> log' \<noteq> log \<and> \<not> ok (get (last log'))"
    define target where "target = (if whence = START then offset
                   else if whence = CURRENT then current_pos sk + offset
                   else content_length sk + offset)"
    define new_pos where "new_pos = clamp target 0 (content_length sk)"
    define req where "req = \<lparr>req_url = url sk, req_auth = auth sk, req_stream = True,
                req_headers = HEADERS(''range'' \<mapsto> BytesFrom new_pos)\<rparr>"
    from h have w: "whence \<in> set WHENCE_CHOICES" and s: "seekable sk" by simp_all
    have moved: "new_pos \<noteq> current_pos sk"
    proof
      assume "new_pos = current_pos sk"
      with seek_same[OF w s target_def, of get log] h show False
        by (simp add: new_pos_def)
    qed
    from seek_moved[OF w s target_def new_pos_def moved req_def, of get log] h
    have "response sk' = None" by auto
    then show "response sk' = None \<and> read sk' n = (Inr [], sk')"
      by (simp add: read_without_response)
  qed
  from a b c d show ?thesis by blast
qed

text \<open>An instance on the 26-byte resource and its server.\<close>

theorem read_after_handle_lost_witness:
  "response (close alphabet_reader) = None \<and>
   read (close alphabet_reader) 5 = (Inr [], close alphabet_reader) \<and>
   START \<in> set WHENCE_CHOICES \<and> seekable alphabet_reader \<and>
   snd (snd (seek alphabet_server alphabet_reader 100 START [])) \<noteq> [] \<and>
   \<not> ok (alphabet_server (last (snd (snd (seek alphabet_server alphabet_reader 100 START []))))) \<and>
   response (fst (snd (seek alphabet_server alphabet_reader 100 START []))) = None \<and>
   fst (read (fst (snd (seek alphabet_server alphabet_reader 100 START []))) 5) = Inr []"
proof -
  let ?k = "seek alphabet_server alphabet_reader 100 START []"
  have h0: "response (close alphabet_reader) = None" by (simp add: close_def)
  have h1: "START \<in> set WHENCE_CHOICES" by (simp add: WHENCE_CHOICES_def)
  have h2: "seekable alphabet_reader" by (simp add: seekable_def alphabet_reader_def)
  have h3: "?k = (fst ?k, fst (snd ?k), snd (snd ?k))" by simp
  have h4: "snd (snd ?k) \<noteq> []" by (simp add: alphabet_seek_100)
  have h5: "\<not> ok (alphabet_server (last (snd (snd ?k))))"
    by (simp add: alphabet_seek_100 alphabet_server_def)
  from read_after_handle_lost[of "close alphabet_reader" 5 START alphabet_reader alphabet_server
        100 "[]" "fst ?k" "fst (snd ?k)" "snd (snd ?k)"] h0 h1 h2 h3 h4 h5
  show ?thesis by simp
qed

section \<open>Properties of seek\<close>

text \<open>
  Claim C7. A \<open>whence\<close> outside \<open>WHENCE_CHOICES\<close> raises \<open>ValueError\<close>, whether or not
  the reader is seekable. With a valid \<open>whence\<close>, a reader that is not seekable raises
  \<open>OSError\<close>. In both cases the reader and the request log are unchanged, so \<open>tell\<close> gives
  the same position as before, and a \<open>read\<close> never moves \<open>tell\<close> backwards.
\<close>

theorem seek_rejections:
  "(whence \<notin> set WHENCE_CHOICES \<longrightarrow>
      seek get self offset whence log = (Inl ValueError, self, log)) \<and>
   (whence \<in> set WHENCE_CHOICES \<and> \<not> seekable self \<longrightarrow>
      seek get self offset whence log = (Inl OSError, self, log)) \<and>
   (\<not> seekable self \<longrightarrow> tell (fst (snd (seek get self offset whence log))) = tell self) \<and>
   tell self \<le> tell (snd (read self n))"
proof -
  have mono: "current_pos self \<le> current_pos (snd (read self n))"
    by (auto simp: read_def Let_def split: option.splits prod.splits bool.splits)
  then show ?thesis by (auto simp: seek_def tell_def)
qed

text \<open>An instance on the 26-byte resource and its server.\<close>

theorem seek_rejections_witness:
  "(7 :: int) \<notin> set WHENCE_CHOICES \<and>
   seek alphabet_server alphabet_reader 3 7 [] = (Inl ValueError, alphabet_reader, []) \<and>
   seek alphabet_server (alphabet_reader\<lparr>seekable_flag := False\<rparr>) 3 7 []
     = (Inl ValueError, alphabet_reader\<lparr>seekable_flag := False\<rparr>, []) \<and>
   START \<in> set WHENCE_CHOICES \<and> \<not> seekable (alphabet_reader\<lparr>seekable_flag := False\<rparr>) \<and>
   seek alphabet_server (alphabet_reader\<lparr>seekable_flag := False\<rparr>) 3 START []
     = (Inl OSError, alphabet_reader\<lparr>seekable_flag := False\<rparr>, []) \<and>
   tell (fst (snd (seek alphabet_server (alphabet_reader\<lparr>seekable_flag := False\<rparr>) 3 START []))) = 0"
proof -
  have h1: "(7 :: int) \<notin> set WHENCE_CHOICES"
    by (simp add: WHENCE_CHOICES_def START_def CURRENT_def END_def)
  have h2: "START \<in> set WHENCE_CHOICES" by (simp add: WHENCE_CHOICES_def)
  have h3: "\<not> seekable (alphabet_reader\<lparr>seekable_flag := False\<rparr>)" by (simp add: seekable_def)
  have h4: "tell (alphabet_reader\<lparr>seekable_flag := False\<rparr>) = 0"
    by (simp add: tell_def alphabet_reader_def)
  from seek_rejections[of 7 alphabet_server alphabet_reader 3 "[]" 0]
       seek_rejections[of 7 alphabet_server "alphabet_reader\<lparr>seekable_flag := False\<rparr>" 3 "[]" 0]
       seek_rejections[of START alphabet_server "alphabet_reader\<lparr>seekable_flag := False\<rparr>" 3 "[]" 0]
       h1 h2 h3 h4
  show ?thesis by simp
qed



text \<open>
  Claim C2 says that after a seek beyond the content length a read returns nothing, for
  every seekable reader. On the server that ignores the range header, the seek to four bytes
  past the end returns the content length 26, and the read that follows returns the first
  five bytes of the resource.
\<close>

theorem read_after_seek_on_whole_body_server:
  "fst (SeekableBufferedInputBase_init int_of_header whole_body_server ''http://host/alphabet''
          ''r'' DEFAULT_BUFFER_SIZE False None None []) = Inr alphabet_reader \<and>
   seekable alphabet_reader \<and> END \<in> set WHENCE_CHOICES \<and>
   content_length alphabet_reader < content_length alphabet_reader + 4 \<and>
   fst (seek whole_body_server alphabet_reader 4 END []) = Inr (content_length alphabet_reader) \<and>
   fst (read (fst (snd (seek whole_body_server alphabet_reader 4 END []))) 5) = Inr ''abcde''"
proof -
  have i: "fst (SeekableBufferedInputBase_init int_of_header whole_body_server ''http://host/alphabet''
          ''r'' DEFAULT_BUFFER_SIZE False None None []) = Inr alphabet_reader"
    by (simp add: SeekableBufferedInputBase_init_def partial_request_def make_auth_def Let_def
        whole_body_server_def alphabet_response_def alphabet_headers_def
        int_of_header_def lower_bytes alphabet_reader_def)
  have k: "seek whole_body_server alphabet_reader 4 END [] =
     (Inr 26,
      alphabet_reader\<lparr>current_pos := 26, read_buffer := None, read_iter := None,
                      response := Some alphabet_response\<rparr>,
      [\<lparr>req_url = ''http://host/alphabet'', req_auth = None, req_stream = True,
        req_headers = HEADERS(''range'' \<mapsto> BytesFrom 26)\<rparr>])"
    by (simp add: seek_def WHENCE_CHOICES_def START_def CURRENT_def END_def seekable_def clamp_def
        alphabet_reader_def partial_request_def whole_body_server_def Let_def
        alphabet_response_def)
  have r: "fst (read (alphabet_reader\<lparr>current_pos := 26, read_buffer := None, read_iter := None,
                      response := Some alphabet_response\<rparr>) 5) = Inr ''abcde''"
    by (simp add: read_def alphabet_reader_def alphabet_response_def Let_def)
  have "seekable alphabet_reader" "END \<in> set WHENCE_CHOICES"
    "content_length alphabet_reader = 26"
    by (simp_all add: seekable_def alphabet_reader_def WHENCE_CHOICES_def)
  with i k r show ?thesis by simp
qed

text \<open>
  Claim C2, amended. On a seekable reader whose content length is not negative, \<open>seek\<close> takes
  the target \<open>offset\<close>, \<open>cursor + offset\<close> or \<open>content_length + offset\<close> for \<open>whence\<close>
  start, current or end. A negative target gives 0, a target within \<open>[0, content_length]\<close>
  gives the target itself, a target beyond the content length gives the content length; the
  value is returned and is the cursor that \<open>tell\<close> reports. After a seek beyond the content
  length every \<open>read\<close> returns the empty result, provided the reader is in a consistent state
  and the transport serves ranges.
\<close>

theorem seek_clamps:
  assumes w: "whence \<in> set WHENCE_CHOICES" and s: "seekable self"
    and cl: "0 \<le> content_length self"
    and k: "seek get self offset whence log = (res, self', log')"
  shows "\<exists>target.
         (whence = START \<longrightarrow> target = offset) \<and>
         (whence = CURRENT \<longrightarrow> target = current_pos self + offset) \<and>
         (whence = END \<longrightarrow> target = content_length self + offset) \<and>
         (target < 0 \<longrightarrow> res = Inr 0 \<and> tell self' = 0) \<and>
         (0 \<le> target \<and> target \<le> content_length self \<longrightarrow>
            res = Inr target \<and> tell self' = target) \<and>
         (content_length self < target \<longrightarrow>
            res = Inr (content_length self) \<and> tell self' = content_length self) \<and>
         res = Inr (current_pos self') \<and>
         0 \<le> current_pos self' \<and> current_pos self' \<le> content_length self \<and>
         (content_length self < target \<and> consistent self \<and> serves_ranges get self \<longrightarrow>
            (\<forall>n. fst (read self' n) = Inr []))"
proof -
  define target where "target = (if whence = START then offset
                      else if whence = CURRENT then current_pos self + offset
                      else content_length self + offset)"
  define new_pos where "new_pos = clamp target 0 (content_length self)"
  have a1: "whence = START \<longrightarrow> target = offset"
    and a2: "whence = CURRENT \<longrightarrow> target = current_pos self + offset"
    and a3: "whence = END \<longrightarrow> target = content_length self + offset"
    by (auto simp: target_def START_def CURRENT_def END_def)
  have b: "res = Inr new_pos \<and> current_pos self' = new_pos
           \<and> content_length self' = content_length self"
  proof (cases "new_pos = current_pos self")
    case True
    with seek_same[OF w s target_def, of get log] k show ?thesis by (simp add: new_pos_def)
  next
    case False
    from seek_moved[OF w s target_def new_pos_def False refl, of get log] k
    show ?thesis by auto
  qed
  have v1: "target < 0 \<longrightarrow> new_pos = 0"
    and v2: "0 \<le> target \<and> target \<le> content_length self \<longrightarrow> new_pos = target"
    and v3: "content_length self < target \<longrightarrow> new_pos = content_length self"
    and c: "0 \<le> new_pos \<and> new_pos \<le> content_length self"
    using cl by (auto simp: new_pos_def clamp_def)
  have d: "content_length self < target \<and> consistent self \<and> serves_ranges get self \<longrightarrow>
            (\<forall>n. fst (read self' n) = Inr [])"
  proof (intro impI allI)
    fix n
    assume h: "content_length self < target \<and> consistent self \<and> serves_ranges get self"
    from h seek_consistent[of self get offset whence log] k have c': "consistent self'"
      by simp
    from h v3 b have "current_pos self' = content_length self'" by simp
    from read_at_end[OF c' this] show "fst (read self' n) = Inr []" .
  qed
  have "(whence = START \<longrightarrow> target = offset) \<and>
         (whence = CURRENT \<longrightarrow> target = current_pos self + offset) \<and>
         (whence = END \<longrightarrow> target = content_length self + offset) \<and>
         (target < 0 \<longrightarrow> res = Inr 0 \<and> tell self' = 0) \<and>
         (0 \<le> target \<and> target \<le> content_length self \<longrightarrow>
            res = Inr target \<and> tell self' = target) \<and>
         (content_length self < target \<longrightarrow>
            res = Inr (content_length self) \<and> tell self' = content_length self) \<and>
         res = Inr (current_pos self') \<and>
         0 \<le> current_pos self' \<and> current_pos self' \<le> content_length self \<and>
         (content_length self < target \<and> consistent self \<and> serves_ranges get self \<longrightarrow>
            (\<forall>n. fst (read self' n) = Inr []))"
    using a1 a2 a3 b v1 v2 v3 c d unfolding tell_def by simp
  then show ?thesis ..
qed

text \<open>
  Instances on the 26-byte resource and its server: a target in range from the start, from
  the cursor and from the end, a negative target, and a target beyond the end followed by a
  read.
\<close>

theorem seek_clamps_witness:
  "START \<in> set WHENCE_CHOICES \<and> CURRENT \<in> set WHENCE_CHOICES \<and> END \<in> set WHENCE_CHOICES \<and>
   seekable alphabet_reader \<and> 0 \<le> content_length alphabet_reader \<and>
   consistent alphabet_reader \<and> serves_ranges alphabet_server alphabet_reader \<and>
   fst (seek alphabet_server alphabet_reader 20 START []) = Inr 20 \<and>
   tell (fst (snd (seek alphabet_server alphabet_reader 20 START []))) = 20 \<and>
   fst (seek alphabet_server alphabet_reader 7 CURRENT []) = Inr 7 \<and>
   tell (fst (snd (seek alphabet_server alphabet_reader 7 CURRENT []))) = 7 \<and>
   fst (seek alphabet_server alphabet_reader (- 5) END []) = Inr 21 \<and>
   tell (fst (snd (seek alphabet_server alphabet_reader (- 5) END []))) = 21 \<and>
   fst (seek alphabet_server alphabet_reader (- 4) CURRENT []) = Inr 0 \<and>
   tell (fst (snd (seek alphabet_server alphabet_reader (- 4) CURRENT []))) = 0 \<and>
   fst (seek alphabet_server alphabet_reader 100 START []) = Inr 26 \<and>
   tell (fst (snd (seek alphabet_server alphabet_reader 100 START []))) = 26 \<and>
   fst (read (fst (snd (seek alphabet_server alphabet_reader 100 START []))) 5) = Inr []"
proof -
  have h1: "START \<in> set WHENCE_CHOICES" "CURRENT \<in> set WHENCE_CHOICES"
    "END \<in> set WHENCE_CHOICES" by (simp_all add: WHENCE_CHOICES_def)
  have h2: "seekable alphabet_reader" by (simp add: seekable_def alphabet_reader_def)
  have h3: "0 \<le> content_length alphabet_reader" by (simp add: alphabet_reader_def)
  have p: "x = (fst x, fst (snd x), snd (snd x))" for x :: "'a \<times> 'b \<times> 'c" by simp
  have v: "content_length alphabet_reader = 26" "current_pos alphabet_reader = 0"
    by (simp_all add: alphabet_reader_def)
  note c = alphabet_reader_consistent alphabet_server_serves
  have a: "fst (seek alphabet_server alphabet_reader 20 START []) = Inr 20 \<and>
   tell (fst (snd (seek alphabet_server alphabet_reader 20 START []))) = 20"
    using seek_clamps[where get = alphabet_server and offset = 20 and log = "[]", OF h1(1) h2 h3 p] v by auto
  have b: "fst (seek alphabet_server alphabet_reader 7 CURRENT []) = Inr 7 \<and>
   tell (fst (snd (seek alphabet_server alphabet_reader 7 CURRENT []))) = 7"
    using seek_clamps[where get = alphabet_server and offset = 7 and log = "[]", OF h1(2) h2 h3 p] v by auto
  have e: "fst (seek alphabet_server alphabet_reader (- 5) END []) = Inr 21 \<and>
   tell (fst (snd (seek alphabet_server alphabet_reader (- 5) END []))) = 21"
    using seek_clamps[where get = alphabet_server and offset = "- 5" and log = "[]", OF h1(3) h2 h3 p] v by auto
  have f: "fst (seek alphabet_server alphabet_reader (- 4) CURRENT []) = Inr 0 \<and>
   tell (fst (snd (seek alphabet_server alphabet_reader (- 4) CURRENT []))) = 0"
    using seek_clamps[where get = alphabet_server and offset = "- 4" and log = "[]", OF h1(2) h2 h3 p] v by auto
  have g: "fst (seek alphabet_server alphabet_reader 100 START []) = Inr 26 \<and>
   tell (fst (snd (seek alphabet_server alphabet_reader 100 START []))) = 26 \<and>
   fst (read (fst (snd (seek alphabet_server alphabet_reader 100 START []))) 5) = Inr []"
    using seek_clamps[where get = alphabet_server and offset = 100 and log = "[]", OF h1(1) h2 h3 p] v c by auto
  from h1 h2 h3 c a b e f g show ?thesis by blast
qed

text \<open>
  Claim C10. When a seek to a new position gets a response that is not ok, the cursor is the
  clamped target all the same, the buffer and the chunk iterator are gone, the response is
  gone, and both \<open>seek\<close> and a later \<open>tell\<close> give the new target, not the old position.
\<close>

theorem failed_seek_moves_cursor:
  assumes "whence \<in> set WHENCE_CHOICES" and "seekable self"
    and "new_pos = clamp (if whence = START then offset
                          else if whence = CURRENT then current_pos self + offset
                          else content_length self + offset) 0 (content_length self)"
    and "new_pos \<noteq> current_pos self"
    and "req = \<lparr>req_url = url self, req_auth = auth self, req_stream = True,
                req_headers = HEADERS(''range'' \<mapsto> BytesFrom new_pos)\<rparr>"
    and "\<not> ok (get req)"
  shows "seek get self offset whence log =
           (Inr new_pos,
            self\<lparr>current_pos := new_pos, read_buffer := None, read_iter := None,
                 response := None\<rparr>,
            log @ [req]) \<and>
         tell (fst (snd (seek get self offset whence log))) = new_pos \<and>
         tell (fst (snd (seek get self offset whence log))) \<noteq> tell self"
  using seek_moved[OF assms(1,2) refl assms(3,4,5), of get log] assms(4,6)
  by (simp add: tell_def)

text \<open>An instance on the 26-byte resource and its server.\<close>

theorem failed_seek_moves_cursor_witness:
  "START \<in> set WHENCE_CHOICES \<and> seekable alphabet_reader \<and>
   (26 :: int) = clamp 100 0 (content_length alphabet_reader) \<and>
   26 \<noteq> current_pos alphabet_reader \<and>
   \<not> ok (alphabet_server \<lparr>req_url = url alphabet_reader, req_auth = auth alphabet_reader,
         req_stream = True, req_headers = HEADERS(''range'' \<mapsto> BytesFrom 26)\<rparr>) \<and>
   seek alphabet_server alphabet_reader 100 START [] =
     (Inr 26,
      alphabet_reader\<lparr>current_pos := 26, read_buffer := None, read_iter := None,
                      response := None\<rparr>,
      [\<lparr>req_url = url alphabet_reader, req_auth = auth alphabet_reader,
         req_stream = True, req_headers = HEADERS(''range'' \<mapsto> BytesFrom 26)\<rparr>]) \<and>
   tell (fst (snd (seek alphabet_server alphabet_reader 100 START []))) = 26 \<and>
   tell alphabet_reader = 0"
proof -
  have h1: "START \<in> set WHENCE_CHOICES" by (simp add: WHENCE_CHOICES_def)
  have h2: "seekable alphabet_reader" by (simp add: seekable_def alphabet_reader_def)
  have h3: "(26 :: int) = clamp (if START = START then 100
                          else if START = CURRENT then current_pos alphabet_reader + 100
                          else content_length alphabet_reader + 100) 0 (content_length alphabet_reader)"
    by (simp add: clamp_def alphabet_reader_def)
  have h4: "26 \<noteq> current_pos alphabet_reader" by (simp add: alphabet_reader_def)
  have h5: "\<not> ok (alphabet_server \<lparr>req_url = url alphabet_reader, req_auth = auth alphabet_reader,
         req_stream = True, req_headers = HEADERS(''range'' \<mapsto> BytesFrom 26)\<rparr>)"
    by (simp add: alphabet_server_def)
  have h6: "tell alphabet_reader = 0" by (simp add: tell_def alphabet_reader_def)
  note t = failed_seek_moves_cursor[where whence = START and self = alphabet_reader
      and new_pos = 26 and offset = 100 and get = alphabet_server and log = "[]"
      and req = "\<lparr>req_url = url alphabet_reader, req_auth = auth alphabet_reader,
         req_stream = True, req_headers = HEADERS(''range'' \<mapsto> BytesFrom 26)\<rparr>"]
  from t[OF h1 h2 h3 h4 refl h5] h1 h2 h3 h4 h5 h6
  show ?thesis by (simp add: tell_def)
qed

text \<open>
  Claim C4 says that a failed request of a seek raises an error at the seek. A seek to 100
  on the 26-byte resource asks for the range from 26, gets status 416, and returns 26.
\<close>

theorem seek_failure_not_raised:
  "\<not> ok (alphabet_server (last (snd (snd (seek alphabet_server alphabet_reader 100 START []))))) \<and>
   fst (seek alphabet_server alphabet_reader 100 START []) = Inr 26 \<and>
   fst (seek alphabet_server alphabet_reader 100 START []) \<noteq> Inl (HTTPError 416)"
  by (simp add: alphabet_seek_100 alphabet_server_def)

text \<open>
  Claim C4, amended. On a seekable reader with a valid \<open>whence\<close>, \<open>seek\<close> returns the
  clamped target and raises nothing, whatever the status of its request; when the request
  it issued got a response that is not ok, the reader is left without a response.
\<close>

theorem seek_returns_despite_failed_request:
  assumes "whence \<in> set WHENCE_CHOICES" and "seekable self"
    and "seek get self offset whence log = (res, self', log')"
  shows "res = Inr (clamp (if whence = START then offset
                           else if whence = CURRENT then current_pos self + offset
                           else content_length self + offset) 0 (content_length self)) \<and>
         (log' \<noteq> log \<and> \<not> ok (get (last log')) \<longrightarrow> response self' = None)"
proof -
  define new_pos where "new_pos = clamp (if whence = START then offset
                           else if whence = CURRENT then current_pos self + offset
                           else content_length self + offset) 0 (content_length self)"
  show ?thesis
  proof (cases "new_pos = current_pos self")
    case True
    with seek_same[OF assms(1,2) refl, of offset get log] assms(3)
    show ?thesis by (simp add: new_pos_def)
  next
    case False
    from seek_moved[OF assms(1,2) refl new_pos_def False refl, of get log] assms(3)
    show ?thesis by (auto simp: new_pos_def)
  qed
qed

text \<open>An instance on the 26-byte resource and its server.\<close>

theorem seek_returns_despite_failed_request_witness:
  "START \<in> set WHENCE_CHOICES \<and> seekable alphabet_reader \<and>
   fst (seek alphabet_server alphabet_reader 100 START []) = Inr (clamp 100 0 26) \<and>
   snd (snd (seek alphabet_server alphabet_reader 100 START [])) \<noteq> [] \<and>
   \<not> ok (alphabet_server (last (snd (snd (seek alphabet_server alphabet_reader 100 START []))))) \<and>
   response (fst (snd (seek alphabet_server alphabet_reader 100 START []))) = None"
proof -
  let ?k = "seek alphabet_server alphabet_reader 100 START []"
  have h1: "START \<in> set WHENCE_CHOICES" by (simp add: WHENCE_CHOICES_def)
  have h2: "seekable alphabet_reader" by (simp add: seekable_def alphabet_reader_def)
  have h3: "?k = (fst ?k, fst (snd ?k), snd (snd ?k))" by simp
  have h4: "snd (snd ?k) \<noteq> []" by (simp add: alphabet_seek_100)
  have h5: "\<not> ok (alphabet_server (last (snd (snd ?k))))"
    by (simp add: alphabet_seek_100 alphabet_server_def)
  have h6: "content_length alphabet_reader = 26" by (simp add: alphabet_reader_def)
  from seek_returns_despite_failed_request[OF h1 h2 h3] h1 h2 h4 h5 h6
  show ?thesis by simp
qed

section \<open>The capability flag\<close>

text \<open>
  Claim C3 as stated wants the token to be exactly \<open>bytes\<close>. A response with
  \<open>Accept-Ranges: BYTES\<close> makes the reader seekable.
\<close>

theorem seekable_with_capital_token:
  "fst (SeekableBufferedInputBase_init int_of_header capitals_server ''http://host/alphabet'' ''r''
     DEFAULT_BUFFER_SIZE False None None []) =
     Inr (alphabet_reader\<lparr>response := Some (capitals_server
            \<lparr>req_url = ''http://host/alphabet'', req_auth = None, req_stream = True,
             req_headers = HEADERS\<rparr>)\<rparr>) \<and>
   seekable (alphabet_reader\<lparr>response := Some (capitals_server
            \<lparr>req_url = ''http://host/alphabet'', req_auth = None, req_stream = True,
             req_headers = HEADERS\<rparr>)\<rparr>) \<and>
   headers (capitals_server
            \<lparr>req_url = ''http://host/alphabet'', req_auth = None, req_stream = True,
             req_headers = HEADERS\<rparr>) ''Accept-Ranges'' = Some ''BYTES'' \<and>
   ''BYTES'' \<noteq> ''bytes''"
  by (simp add: SeekableBufferedInputBase_init_def partial_request_def make_auth_def Let_def
        capitals_server_def alphabet_response_def int_of_header_def lower_BYTES
        alphabet_reader_def seekable_def)

text \<open>
  Claim C3, amended. When the constructor returns a reader, the reader is seekable exactly
  when the first response has a \<open>Content-Length\<close> that \<open>int\<close> reads as a number that is not
  negative, and an \<open>Accept-Ranges\<close> whose lower-case form is \<open>bytes\<close>.
\<close>

theorem seekable_flag_from_headers:
  assumes "SeekableBufferedInputBase_init py_int get u m bs k us pw log = (Inr self, log')"
  shows "\<exists>resp. resp = fst (partial_request get u (make_auth k us pw) None log) \<and>
           response self = Some resp \<and>
           (seekable self \<longleftrightarrow>
              (\<exists>v c. headers resp ''Content-Length'' = Some v \<and> py_int v = Some c \<and> 0 \<le> c) \<and>
              (\<exists>w. headers resp ''Accept-Ranges'' = Some w \<and> lower w = ''bytes''))"
proof -
  define resp where "resp = fst (partial_request get u (make_auth k us pw) None log)"
  have n: "lower ''none'' \<noteq> ''bytes''" by code_simp
  from assms have "response self = Some resp \<and>
           (seekable self \<longleftrightarrow>
              (\<exists>v c. headers resp ''Content-Length'' = Some v \<and> py_int v = Some c \<and> 0 \<le> c) \<and>
              (\<exists>w. headers resp ''Accept-Ranges'' = Some w \<and> lower w = ''bytes''))"
    unfolding SeekableBufferedInputBase_init_def resp_def
    by (cases "headers (fst (partial_request get u (make_auth k us pw) None log)) ''Content-Length''";
        cases "headers (fst (partial_request get u (make_auth k us pw) None log)) ''Accept-Ranges''")
       (auto simp: Let_def seekable_def n split: prod.splits if_splits option.splits)
  then show ?thesis unfolding resp_def by blast
qed

text \<open>An instance on the 26-byte resource and its server.\<close>

theorem seekable_flag_from_headers_witness:
  "SeekableBufferedInputBase_init int_of_header alphabet_server ''http://host/alphabet'' ''r''
     DEFAULT_BUFFER_SIZE False None None [] =
   (Inr alphabet_reader,
    [\<lparr>req_url = ''http://host/alphabet'', req_auth = None, req_stream = True,
       req_headers = HEADERS\<rparr>]) \<and>
   response alphabet_reader = Some alphabet_response \<and>
   seekable alphabet_reader \<and>
   headers alphabet_response ''Content-Length'' = Some ''26'' \<and> int_of_header ''26'' = Some 26 \<and>
   headers alphabet_response ''Accept-Ranges'' = Some ''bytes'' \<and> lower ''bytes'' = ''bytes''"
proof -
  have r: "fst (partial_request alphabet_server ''http://host/alphabet'' (make_auth False None None)
             None []) = alphabet_response"
    by (simp add: partial_request_def alphabet_server_def HEADERS_def Let_def)
  from seekable_flag_from_headers[OF alphabet_init] r
  have "response alphabet_reader = Some alphabet_response \<and>
        (seekable alphabet_reader \<longleftrightarrow>
              (\<exists>v c. headers alphabet_response ''Content-Length'' = Some v \<and>
                     int_of_header v = Some c \<and> 0 \<le> c) \<and>
              (\<exists>w. headers alphabet_response ''Accept-Ranges'' = Some w \<and> lower w = ''bytes''))"
    by simp
  moreover have "headers alphabet_response ''Content-Length'' = Some ''26''"
    "int_of_header ''26'' = Some 26"
    "headers alphabet_response ''Accept-Ranges'' = Some ''bytes''"
    by (simp_all add: alphabet_response_def alphabet_headers_def int_of_header_def)
  ultimately show ?thesis using alphabet_init lower_bytes by auto
qed

end
